theory Spec2Isabelle
  imports Main "HOL-Library.AList"
begin

section \<open>JavaScript values and event objects\<close>

text \<open>
  An event is an open JavaScript object. The property values of a decoded event are
  primitive: strings, numbers, booleans, \<^verbatim>\<open>null\<close> and \<^verbatim>\<open>undefined\<close>.
  The sources do two things with a number: they compare it with \<open>0\<close> and they print
  it with \<^verbatim>\<open>String\<close>. A number is therefore represented by its printed form
  \<^verbatim>\<open>String(n)\<close>, which is \<^verbatim>\<open>0\<close> for both zeros and differs for any two other
  numbers: \<open>JNum ''100''\<close>, \<open>JNum ''0.5''\<close>, \<open>JNum ''1e+21''\<close>.
  \<open>JThis\<close> is a reference to the object that holds the property; it arises only as
  the id that \<^verbatim>\<open>idify\<close> gives to an event whose type is \<^verbatim>\<open>constructor\<close>.
  An object is an association list in property insertion order; reading a property that
  is absent yields \<^verbatim>\<open>undefined\<close>. The sources read events at the names
  \<open>id\<close>, \<open>type\<close>, \<open>ts\<close>, \<open>duration\<close> and the fields of the recipes and of
  the joiner, none of which an object inherits.
\<close>

datatype jsval = JUndefined | JNull | JBool bool | JNum string | JStr string | JThis

type_synonym obj = "(string \<times> jsval) list"

definition get :: "obj \<Rightarrow> string \<Rightarrow> jsval" where
  "get e f = (case map_of e f of None \<Rightarrow> JUndefined | Some v \<Rightarrow> v)"

definition set_prop :: "obj \<Rightarrow> string \<Rightarrow> jsval \<Rightarrow> obj" where
  "set_prop e f v = AList.update f v e"

text \<open>\<^verbatim>\<open>x == null\<close> holds for \<^verbatim>\<open>null\<close> and \<^verbatim>\<open>undefined\<close> only.\<close>

fun eq_null :: "jsval \<Rightarrow> bool" where
  "eq_null JUndefined = True"
| "eq_null JNull = True"
| "eq_null _ = False"

text \<open>
  \<^verbatim>\<open>String(v)\<close>, also the conversion of a value used as a property key. An event
  prints as a plain object.
\<close>

fun String_js :: "jsval \<Rightarrow> string" where
  "String_js JUndefined = ''undefined''"
| "String_js JNull = ''null''"
| "String_js (JBool b) = (if b then ''true'' else ''false'')"
| "String_js (JNum printed) = printed"
| "String_js (JStr s) = s"
| "String_js JThis = ''[object Object]''"

section \<open>Idifier\<close>

text \<open>
  The exceptions: the two internal-state errors \<^verbatim>\<open>except.ISE\<close> raises, with the
  values that fill the message; the \<^verbatim>\<open>TypeError\<close> of a call that the language
  refuses, with the name of the member called; and \<^verbatim>\<open>new Error(message)\<close>.
\<close>

datatype error =
    UnknownType jsval jsval
  | MissingField jsval string
  | TypeError string
  | Error string

text \<open>
  \<^verbatim>\<open>hashVals\<close> feeds the string form of every value to one SHA-1 hasher and encodes
  the digest in base 32. The digest and the encoding belong to the libraries
  \<^verbatim>\<open>crypto\<close> and \<^verbatim>\<open>amoeba\<close>; they are the parameter \<open>H\<close>, applied to the
  concatenation of everything the hasher was updated with.
\<close>

definition hashVals :: "(string \<Rightarrow> string) \<Rightarrow> jsval list \<Rightarrow> string" where
  "hashVals H vals = H (concat (map String_js vals))"

definition getter :: "string \<Rightarrow> obj \<Rightarrow> error + jsval" where
  "getter field e =
     (let retVal = get e field
      in if eq_null retVal then Inl (MissingField (get e ''type'') field) else Inr retVal)"

text \<open>\<^verbatim>\<open>getters.map\<close>: the getters run in order, the first throw ends the call.\<close>

fun run_getters :: "string list \<Rightarrow> obj \<Rightarrow> error + jsval list" where
  "run_getters [] e = Inr []"
| "run_getters (f # fs) e =
     (case getter f e of
        Inl err \<Rightarrow> Inl err
      | Inr v \<Rightarrow> (case run_getters fs e of Inl err \<Rightarrow> Inl err | Inr vs \<Rightarrow> Inr (v # vs)))"

definition buildHasher :: "string list \<Rightarrow> (string \<Rightarrow> string) \<Rightarrow> obj \<Rightarrow> error + string" where
  "buildHasher fields H e =
     (case run_getters fields e of Inl err \<Rightarrow> Inl err | Inr vals \<Rightarrow> Inr (hashVals H vals))"

definition idifiers :: "(string \<times> string list) list" where
  "idifiers =
     [(''basal'', [''type'', ''deliveryType'', ''deviceId'', ''ts'']),
      (''bolus'', [''type'', ''subType'', ''deviceId'', ''ts'']),
      (''cbg'', [''type'', ''deviceId'', ''ts'']),
      (''deviceMeta'', [''type'', ''subType'', ''ts'']),
      (''smbg'', [''type'', ''deviceId'', ''ts'']),
      (''settings'', [''type'', ''deviceId'', ''ts'']),
      (''wizard'', [''type'', ''deviceId'', ''ts''])]"

text \<open>
  \<open>idifiers\<close>, \<open>flows\<close> and a handlers object are plain objects: reading a
  property they do not have themselves finds the members they inherit from
  \<^verbatim>\<open>Object.prototype\<close>, none of which is \<^verbatim>\<open>null\<close>.
\<close>

definition object_prototype_names :: "string list" where
  "object_prototype_names =
     [''constructor'', ''toString'', ''toLocaleString'', ''valueOf'', ''hasOwnProperty'',
      ''isPrototypeOf'', ''propertyIsEnumerable'', ''__defineGetter__'', ''__defineSetter__'',
      ''__lookupGetter__'', ''__lookupSetter__'', ''__proto__'']"

text \<open>
  \<^verbatim>\<open>handler(e)\<close> when \<open>handler\<close> is an inherited member, as ECMAScript defines
  the members: the call passes no \<^verbatim>\<open>this\<close>, so \<^verbatim>\<open>toString\<close> answers
  \<^verbatim>\<open>[object Undefined]\<close>, \<^verbatim>\<open>constructor\<close> (that is \<^verbatim>\<open>Object\<close>) returns
  its argument, the event itself, \<^verbatim>\<open>__proto__\<close> is no function, and every other member
  fails to convert \<^verbatim>\<open>this\<close> to an object.
\<close>

definition call_inherited :: "string \<Rightarrow> error + jsval" where
  "call_inherited name =
     (if name = ''toString'' then Inr (JStr ''[object Undefined]'')
      else if name = ''constructor'' then Inr JThis
      else Inl (TypeError name))"

text \<open>
  \<^verbatim>\<open>idify\<close> on the object itself: the result is the object after the call, or the
  error thrown. \<^verbatim>\<open>idifiers[e.type]\<close> is a recipe of the table, or an inherited
  member, or \<^verbatim>\<open>undefined\<close>.
\<close>

definition idify :: "(string \<Rightarrow> string) \<Rightarrow> obj \<Rightarrow> error + obj" where
  "idify H e =
     (if eq_null (get e ''id'') then
        (case map_of idifiers (String_js (get e ''type'')) of
           Some fields \<Rightarrow>
             (case buildHasher fields H e of
                Inl err \<Rightarrow> Inl err
              | Inr h \<Rightarrow> Inr (set_prop e ''id'' (JStr h)))
         | None \<Rightarrow>
             if String_js (get e ''type'') \<in> set object_prototype_names then
               (case call_inherited (String_js (get e ''type'')) of
                  Inl err \<Rightarrow> Inl err
                | Inr v \<Rightarrow> Inr (set_prop e ''id'' v))
             else Inl (UnknownType (get e ''type'') (get e ''ts'')))
      else Inr e)"

text \<open>
  Events are shared by reference: \<^verbatim>\<open>idify\<close> writes the id into the object it was
  given. The heap is the list of objects allocated so far, a reference is an index. A throw
  happens before the assignment, so it leaves the heap as it was.
\<close>

type_synonym ref = nat
type_synonym heap = "obj list"

definition idify_at :: "(string \<Rightarrow> string) \<Rightarrow> ref \<Rightarrow> heap \<Rightarrow> error option \<times> heap" where
  "idify_at H r h =
     (case idify H (h ! r) of
        Inl err \<Rightarrow> (Some err, h)
      | Inr e' \<Rightarrow> (None, h[r := e']))"

text \<open>A stand-in digest for evaluating the definitions at concrete events.\<close>

definition toy_digest :: "string \<Rightarrow> string" where
  "toy_digest s = ''#'' @ s"

section \<open>TempBasalJoiner\<close>

text \<open>
  \<^verbatim>\<open>_.pick(e, props)\<close> copies the listed properties that \<open>e\<close> has;
  \<^verbatim>\<open>_.assign(dest, src)\<close> writes every property of \<open>src\<close> into \<open>dest\<close>.
\<close>

definition pick :: "obj \<Rightarrow> string list \<Rightarrow> obj" where
  "pick e props =
     fold (\<lambda>key result. case map_of e key of None \<Rightarrow> result
                                           | Some v \<Rightarrow> AList.update key v result) props []"

definition assign :: "obj \<Rightarrow> obj \<Rightarrow> obj" where
  "assign dest src = fold (\<lambda>kv d. AList.update (fst kv) (snd kv) d) src dest"

text \<open>
  The function the joiner passes to \<^verbatim>\<open>keep\<close>. \<open>currTemp\<close> is the closure
  variable: no reference, or the reference of the remembered temp event. The result is the
  returned value (\<open>None\<close> for \<^verbatim>\<open>null\<close>), the new \<open>currTemp\<close> and the heap,
  which grows by the synthesized object.
\<close>

definition join_fn :: "ref option \<Rightarrow> ref \<Rightarrow> heap \<Rightarrow> ref option \<times> ref option \<times> heap" where
  "join_fn currTemp r h =
     (let e = h ! r in
      if get e ''type'' = JStr ''basal'' \<and> get e ''deliveryType'' = JStr ''temp'' then
        if get e ''duration'' = JNum ''0'' then
          (case currTemp of
             None \<Rightarrow> (None, None, h)
           | Some theTemp \<Rightarrow>
               (Some (length h), None,
                h @ [assign (pick e [''type'', ''deviceTime'', ''deviceId'', ''source''])
                       [(''deliveryType'', JStr ''temp-stop''),
                        (''tempId'', get (h ! theTemp) ''id'')]]))
        else (Some r, Some r, h)
      else (Some r, currTemp, h))"

text \<open>\<^verbatim>\<open>keep\<close> maps and drops the \<^verbatim>\<open>null\<close> results.\<close>

definition keep_emit :: "'a option \<Rightarrow> 'a list" where
  "keep_emit ret = (case ret of None \<Rightarrow> [] | Some x \<Rightarrow> [x])"

definition join_step :: "ref option \<Rightarrow> ref \<Rightarrow> heap \<Rightarrow> ref list \<times> ref option \<times> heap" where
  "join_step currTemp r h =
     (case join_fn currTemp r h of (ret, currTemp', h') \<Rightarrow> (keep_emit ret, currTemp', h'))"

fun tempBasalJoin :: "ref list \<Rightarrow> ref option \<Rightarrow> heap \<Rightarrow> ref list \<times> ref option \<times> heap" where
  "tempBasalJoin [] currTemp h = ([], currTemp, h)"
| "tempBasalJoin (r # rs) currTemp h =
     (case join_step currTemp r h of
        (out, currTemp', h') \<Rightarrow>
          (case tempBasalJoin rs currTemp' h' of
             (outs, currTemp'', h'') \<Rightarrow> (out @ outs, currTemp'', h'')))"

text \<open>
  The joiner followed by \<^verbatim>\<open>map(idify)\<close>. The stream is push based: an event runs
  through both stages before the next one enters the first. A throw of \<^verbatim>\<open>idify\<close>
  ends the stream with that error. The result is the references emitted, the error if
  there was one, and the final heap.
\<close>

fun idify_all :: "(string \<Rightarrow> string) \<Rightarrow> ref list \<Rightarrow> heap \<Rightarrow> ref list \<times> error option \<times> heap" where
  "idify_all H [] h = ([], None, h)"
| "idify_all H (x # xs) h =
     (case idify_at H x h of
        (Some err, h') \<Rightarrow> ([], Some err, h')
      | (None, h') \<Rightarrow>
          (case idify_all H xs h' of (outs, res, h'') \<Rightarrow> (x # outs, res, h'')))"

fun join_then_idify ::
  "(string \<Rightarrow> string) \<Rightarrow> ref list \<Rightarrow> ref option \<Rightarrow> heap \<Rightarrow> ref list \<times> error option \<times> heap" where
  "join_then_idify H [] currTemp h = ([], None, h)"
| "join_then_idify H (r # rs) currTemp h =
     (case join_step currTemp r h of
        (out, currTemp', h') \<Rightarrow>
          (case idify_all H out h' of
             (ids, Some err, h'') \<Rightarrow> (ids, Some err, h'')
           | (ids, None, h'') \<Rightarrow>
               (case join_then_idify H rs currTemp' h'' of
                  (outs, res, hf) \<Rightarrow> (ids @ outs, res, hf))))"

text \<open>The events of the end-to-end scenario, and a stop event with all the picked fields.\<close>

definition temp_start :: obj where
  "temp_start =
     [(''type'', JStr ''basal''), (''deliveryType'', JStr ''temp''),
      (''deviceId'', JStr ''d1''), (''ts'', JNum ''100''), (''duration'', JNum ''30'')]"

definition temp_stop :: obj where
  "temp_stop =
     [(''type'', JStr ''basal''), (''deliveryType'', JStr ''temp''),
      (''deviceId'', JStr ''d1''), (''ts'', JNum ''200''), (''duration'', JNum ''0'')]"

definition temp_started :: obj where
  "temp_started =
     [(''type'', JStr ''basal''), (''deliveryType'', JStr ''temp''),
      (''deviceId'', JStr ''d1''), (''deviceTime'', JStr ''2014-01-01T10:00:00''),
      (''source'', JStr ''carelink''), (''duration'', JNum ''30''), (''id'', JStr ''abc'')]"

definition temp_cancel :: obj where
  "temp_cancel =
     [(''type'', JStr ''basal''), (''deliveryType'', JStr ''temp''),
      (''deviceId'', JStr ''d1''), (''deviceTime'', JStr ''2014-01-01T10:20:00''),
      (''source'', JStr ''carelink''), (''duration'', JNum ''0'')]"

text \<open>Events for the idifier.\<close>

definition wizard_no_device :: obj where
  "wizard_no_device =
     [(''type'', JStr ''wizard''), (''subType'', JStr ''carb''), (''ts'', JNum ''100'')]"

definition wizard_event :: obj where
  "wizard_event =
     [(''type'', JStr ''wizard''), (''deviceId'', JStr ''d1''), (''ts'', JNum ''100'')]"

definition toString_event :: obj where
  "toString_event = [(''type'', JStr ''toString''), (''ts'', JNum ''5'')]"

definition food_event :: obj where
  "food_event = [(''type'', JStr ''food''), (''ts'', JNum ''5'')]"

definition basal_no_ts :: obj where
  "basal_no_ts =
     [(''type'', JStr ''basal''), (''deviceId'', JStr ''d1''),
      (''deliveryType'', JStr ''temp-stop''), (''tempId'', JStr ''x'')]"

section \<open>Stream notifications and \<^verbatim>\<open>readline\<close>\<close>

text \<open>
  The three channels of a stream: a value, an error, the completion. A finite run of a
  stream is the list of notifications it delivered.
\<close>

datatype ('a, 'x) notification = OnNext 'a | OnError 'x | OnCompleted

text \<open>
  \<^verbatim>\<open>readline\<close> keeps the pending partial line in \<open>bufferedString\<close>. Chunks are
  character strings; \<^verbatim>\<open>split('\n')\<close> of a string always has at least one element.
\<close>

abbreviation LF :: char where "LF \<equiv> CHR 0x0A"

fun split_lf :: "string \<Rightarrow> string list" where
  "split_lf [] = [[]]"
| "split_lf (c # cs) =
     (if c = LF then [] # split_lf cs
      else (case split_lf cs of [] \<Rightarrow> [[c]] | x # xs \<Rightarrow> (c # x) # xs))"

text \<open>The observer's \<^verbatim>\<open>onNext\<close>: the lines emitted and the new buffer.\<close>

definition readline_onNext :: "string \<Rightarrow> string \<Rightarrow> string list \<times> string" where
  "readline_onNext bufferedString e =
     (let splits = split_lf (bufferedString @ e)
      in (map (\<lambda>s. s @ [LF]) (butlast splits), last splits))"

fun readline_feed :: "string \<Rightarrow> string list \<Rightarrow> string list \<times> string" where
  "readline_feed bufferedString [] = ([], bufferedString)"
| "readline_feed bufferedString (e # es) =
     (case readline_onNext bufferedString e of
        (out, bufferedString') \<Rightarrow>
          (case readline_feed bufferedString' es of
             (outs, final) \<Rightarrow> (out @ outs, final)))"

text \<open>
  The operator on a whole upstream: the chunks, then an error (\<open>Some err\<close>) or the
  completion (\<open>None\<close>).
\<close>

definition readline :: "string list \<Rightarrow> 'x option \<Rightarrow> (string, 'x) notification list" where
  "readline chunks ending =
     (case readline_feed [] chunks of
        (out, bufferedString) \<Rightarrow>
          map OnNext out @
          (case ending of
             Some err \<Rightarrow> [OnError err]
           | None \<Rightarrow> [OnNext bufferedString, OnCompleted]))"

section \<open>\<^verbatim>\<open>splitMerge\<close>\<close>

text \<open>
  The output observer of an operator built with \<^verbatim>\<open>link\<close>: the notifications it
  received, and whether it has terminated. \<^verbatim>\<open>rx.Observable.create\<close> hands the operator an
  observer that ignores everything after the first error or completion.
\<close>

record ('a, 'x) observer =
  emitted :: "('a, 'x) notification list"
  stopped :: bool

definition observer_onNext :: "'a \<Rightarrow> ('a, 'x) observer \<Rightarrow> ('a, 'x) observer" where
  "observer_onNext v ob = (if stopped ob then ob else ob\<lparr>emitted := emitted ob @ [OnNext v]\<rparr>)"

definition observer_onError :: "'x \<Rightarrow> ('a, 'x) observer \<Rightarrow> ('a, 'x) observer" where
  "observer_onError err ob =
     (if stopped ob then ob else ob\<lparr>emitted := emitted ob @ [OnError err], stopped := True\<rparr>)"

definition observer_onCompleted :: "('a, 'x) observer \<Rightarrow> ('a, 'x) observer" where
  "observer_onCompleted ob =
     (if stopped ob then ob else ob\<lparr>emitted := emitted ob @ [OnCompleted], stopped := True\<rparr>)"

text \<open>
  What makes the output stream of a handler deliver something: an event pushed into its flow
  (a \<^verbatim>\<open>Subject\<close>), the completion of the flow, or a source of its own (a timer, another
  stream) that fires while the input is silent.
\<close>

datatype 'e stimulus = Push 'e | Finish | Wake

text \<open>
  A handler receives the flow and returns the output stream it builds over it. That stream
  is described by what it delivers to its subscriber: the notifications at subscription,
  and, from a state of its own, the notifications at each stimulus.
\<close>

record ('e, 'o, 'x, 's) handler_output =
  at_subscribe :: "('o, 'x) notification list"
  start :: 's
  react :: "'s \<Rightarrow> 'e stimulus \<Rightarrow> ('o, 'x) notification list \<times> 's"

text \<open>
  An entry of the table \<open>flows\<close>: the flow with the stream built over it, the state of
  that stream, and whether the subscription \<^verbatim>\<open>splitMerge\<close> made to it is still live (a
  subscription ends with the first error or completion it delivers).
\<close>

record ('e, 'o, 'x, 's) flow =
  chain :: "('e, 'o, 'x, 's) handler_output"
  chain_state :: 's
  subscribed :: bool

text \<open>
  The state of one instance: the table \<open>flows\<close> with its own properties in insertion
  order; the output observer; the keys the handler was called with, in call order; and the
  exceptions that \<^verbatim>\<open>onNext\<close> has thrown to its caller, the producer of the input.
\<close>

record ('e, 'o, 'x, 's) sm_state =
  flows :: "(string \<times> ('e, 'o, 'x, 's) flow) list"
  merged :: "('o, 'x) observer"
  invoked :: "string list"
  raised :: "error list"

text \<open>
  \<^verbatim>\<open>Object.keys\<close> lists the keys that are array indices first, in ascending numeric
  order, and then the other keys in insertion order. An array index is the decimal form,
  without leading zero, of a number below \<open>2\<^sup>3\<^sup>2 - 1\<close>.
\<close>

definition digits_value :: "string \<Rightarrow> nat" where
  "digits_value s = foldl (\<lambda>n c. 10 * n + (of_char c - 48)) 0 s"

definition is_array_index :: "string \<Rightarrow> bool" where
  "is_array_index s \<longleftrightarrow>
     s \<noteq> [] \<and> list_all (\<lambda>c. c \<in> set ''0123456789'') s \<and>
     (length s = 1 \<or> hd s \<noteq> CHR ''0'') \<and> digits_value s < 4294967295"

definition Object_keys :: "(string \<times> 'v) list \<Rightarrow> string list" where
  "Object_keys ob =
     sort_key digits_value (filter is_array_index (map fst ob)) @
     filter (\<lambda>k. \<not> is_array_index k) (map fst ob)"

text \<open>
  The two forms of \<open>handlers\<close>: a function of the key, or an object from keys to
  handlers, which \<^verbatim>\<open>splitMerge\<close> wraps into a function that throws on a key without
  entry. A key is the property name the selector's result is used as. The wrapper is called
  only for a key at which \<open>flows\<close> reads \<^verbatim>\<open>null\<close>, so never for the name of an
  inherited member.
\<close>

datatype ('e, 'o, 'x, 's) handlers =
    ByFunction "string \<Rightarrow> ('e, 'o, 'x, 's) handler_output"
  | ByObject "(string \<times> ('e, 'o, 'x, 's) handler_output) list"

definition call_handlers ::
  "('e, 'o, 'x, 's) handlers \<Rightarrow> string \<Rightarrow> error + ('e, 'o, 'x, 's) handler_output" where
  "call_handlers hs key =
     (case hs of
        ByFunction f \<Rightarrow> Inr (f key)
      | ByObject handlersObj \<Rightarrow>
          (case map_of handlersObj key of
             None \<Rightarrow> Inl (Error (''Unknown key['' @ key @ ''].''))
           | Some handler \<Rightarrow> Inr handler))"

text \<open>
  The three callbacks \<^verbatim>\<open>splitMerge\<close> subscribes to a handler's output with, applied to
  the notifications the output delivers, in order. The second component tells whether the
  subscription is still live afterwards.
\<close>

fun deliver ::
  "string \<Rightarrow> ('o, 'x) notification list \<Rightarrow> ('e, 'o, 'x, 's) sm_state \<Rightarrow>
   ('e, 'o, 'x, 's) sm_state \<times> bool" where
  "deliver theKey [] st = (st, True)"
| "deliver theKey (OnNext v # ns) st =
     deliver theKey ns (st\<lparr>merged := observer_onNext v (merged st)\<rparr>)"
| "deliver theKey (OnError err # ns) st =
     (st\<lparr>merged := observer_onError err (merged st)\<rparr>, False)"
| "deliver theKey (OnCompleted # ns) st =
     (let remaining = AList.delete theKey (flows st)
      in (st\<lparr>flows := remaining,
              merged := (if length (Object_keys remaining) = 0
                         then observer_onCompleted (merged st)
                         else merged st)\<rparr>,
          False))"

text \<open>
  A stimulus reaches the output stream of the flow at \<open>key\<close>: the stream reacts, and what
  it delivers reaches the callbacks while the subscription is live. For \<open>Push\<close> and
  \<open>Finish\<close> this is \<^verbatim>\<open>flows[key].onNext(e)\<close> and \<^verbatim>\<open>flows[key].onCompleted()\<close>.
\<close>

definition push_flow ::
  "string \<Rightarrow> 'e stimulus \<Rightarrow> ('e, 'o, 'x, 's) sm_state \<Rightarrow> ('e, 'o, 'x, 's) sm_state" where
  "push_flow key p st =
     (case map_of (flows st) key of
        None \<Rightarrow> st
      | Some fl \<Rightarrow>
          (case react (chain fl) (chain_state fl) p of
             (ns, s') \<Rightarrow>
               (let st1 = st\<lparr>flows := AList.update key (fl\<lparr>chain_state := s'\<rparr>) (flows st)\<rparr>
                in if subscribed fl then
                     (case deliver key ns st1 of
                        (st2, live) \<Rightarrow>
                          if live then st2
                          else st2\<lparr>flows :=
                                 AList.map_entry key (\<lambda>f. f\<lparr>subscribed := False\<rparr>) (flows st2)\<rparr>)
                   else st1)))"

text \<open>
  The observer \<open>retVal\<close> that \<^verbatim>\<open>splitMerge\<close> subscribes on its input. Its
  \<^verbatim>\<open>onNext\<close> returns the new state, or throws (\<open>Inl\<close>) before it has changed
  anything: at the name of an inherited member \<^verbatim>\<open>flows[key]\<close> is that member, which
  has no \<^verbatim>\<open>onNext\<close> to call; at a key without entry the wrapper of a handlers object
  throws.
\<close>

definition sm_onNext ::
  "('e \<Rightarrow> string) \<Rightarrow> ('e, 'o, 'x, 's) handlers \<Rightarrow> 'e \<Rightarrow> ('e, 'o, 'x, 's) sm_state \<Rightarrow>
   error + ('e, 'o, 'x, 's) sm_state" where
  "sm_onNext selector hs e st =
     (let key = selector e in
      case map_of (flows st) key of
        Some fl \<Rightarrow> Inr (push_flow key (Push e) st)
      | None \<Rightarrow>
          if key \<in> set object_prototype_names then Inl (TypeError ''onNext'')
          else
            (case call_handlers hs key of
               Inl thrown \<Rightarrow> Inl thrown
             | Inr out \<Rightarrow>
                 (case deliver key (at_subscribe out) (st\<lparr>invoked := invoked st @ [key]\<rparr>) of
                    (st1, live) \<Rightarrow>
                      Inr (push_flow key (Push e)
                        (st1\<lparr>flows :=
                           AList.update key
                             \<lparr>chain = out, chain_state = start out, subscribed = live\<rparr>
                             (flows st1)\<rparr>)))))"

definition sm_onError :: "'x \<Rightarrow> ('e, 'o, 'x, 's) sm_state \<Rightarrow> ('e, 'o, 'x, 's) sm_state" where
  "sm_onError err st = st\<lparr>merged := observer_onError err (merged st)\<rparr>"

definition sm_onCompleted :: "('e, 'o, 'x, 's) sm_state \<Rightarrow> ('e, 'o, 'x, 's) sm_state" where
  "sm_onCompleted st =
     (let flowKeys = Object_keys (flows st)
      in if length flowKeys = 0 then st\<lparr>merged := observer_onCompleted (merged st)\<rparr>
         else fold (\<lambda>key s. push_flow key Finish s) flowKeys st)"

definition sm_init :: "('e, 'o, 'x, 's) sm_state" where
  "sm_init =
     \<lparr>flows = [], merged = \<lparr>emitted = [], stopped = False\<rparr>, invoked = [],
      raised = []\<rparr>"

text \<open>
  What happens while the input is live, in order: the producer of the input delivers an
  event, or the output stream of the flow at a key acts on its own.
\<close>

datatype 'e occurrence = Arrives 'e | Wakes string

text \<open>
  A run of the instance while the input is live. \<^verbatim>\<open>link\<close> returns the subscription on
  the input as the disposable of the output, so an event is delivered only while the output
  observer has not terminated. \<^verbatim>\<open>splitMerge\<close> catches nothing and unsubscribes
  nothing: a throw of \<^verbatim>\<open>onNext\<close> goes to the producer, the merged output is told
  nothing, and an event that the producer delivers afterwards is processed like any other.
\<close>

fun sm_run ::
  "('e \<Rightarrow> string) \<Rightarrow> ('e, 'o, 'x, 's) handlers \<Rightarrow> 'e occurrence list \<Rightarrow>
   ('e, 'o, 'x, 's) sm_state \<Rightarrow> ('e, 'o, 'x, 's) sm_state" where
  "sm_run selector hs [] st = st"
| "sm_run selector hs (Wakes key # os) st = sm_run selector hs os (push_flow key Wake st)"
| "sm_run selector hs (Arrives e # os) st =
     (if stopped (merged st) then sm_run selector hs os st
      else (case sm_onNext selector hs e st of
              Inl thrown \<Rightarrow> sm_run selector hs os (st\<lparr>raised := raised st @ [thrown]\<rparr>)
            | Inr st' \<Rightarrow> sm_run selector hs os st'))"

text \<open>How far the input has got after the run: still live, completed, or failed.\<close>

datatype 'x ending = Live | Completes | Fails 'x

definition splitMerge ::
  "('e \<Rightarrow> string) \<Rightarrow> ('e, 'o, 'x, 's) handlers \<Rightarrow> 'e occurrence list \<Rightarrow> 'x ending \<Rightarrow>
   ('e, 'o, 'x, 's) sm_state" where
  "splitMerge selector hs os ending =
     (let st = sm_run selector hs os sm_init
      in if stopped (merged st) then st
         else (case ending of
                 Live \<Rightarrow> st
               | Completes \<Rightarrow> sm_onCompleted st
               | Fails err \<Rightarrow> sm_onError err st))"

text \<open>
  Three handler outputs: the flow itself; its first element only (\<^verbatim>\<open>take(1)\<close>), whose
  state tells whether the element has been taken; and the flow until a timer of the
  handler's fires (\<^verbatim>\<open>takeUntil\<close>), whose state tells whether it has.
\<close>

fun identity_react :: "bool \<Rightarrow> 'e stimulus \<Rightarrow> ('e, 'x) notification list \<times> bool" where
  "identity_react s (Push e) = ([OnNext e], s)"
| "identity_react s Finish = ([OnCompleted], s)"
| "identity_react s Wake = ([], s)"

fun take1_react :: "bool \<Rightarrow> 'e stimulus \<Rightarrow> ('e, 'x) notification list \<times> bool" where
  "take1_react taken (Push e) = (if taken then ([], True) else ([OnNext e, OnCompleted], True))"
| "take1_react taken Finish = (if taken then ([], True) else ([OnCompleted], True))"
| "take1_react taken Wake = ([], taken)"

fun until_timer_react :: "bool \<Rightarrow> 'e stimulus \<Rightarrow> ('e, 'x) notification list \<times> bool" where
  "until_timer_react fired (Push e) = (if fired then ([], True) else ([OnNext e], False))"
| "until_timer_react fired Finish = (if fired then ([], True) else ([OnCompleted], True))"
| "until_timer_react fired Wake = (if fired then ([], True) else ([OnCompleted], True))"

definition identity_output :: "('e, 'e, 'x, bool) handler_output" where
  "identity_output = \<lparr>at_subscribe = [], start = False, react = identity_react\<rparr>"

definition take1_output :: "('e, 'e, 'x, bool) handler_output" where
  "take1_output = \<lparr>at_subscribe = [], start = False, react = take1_react\<rparr>"

definition until_timer_output :: "('e, 'e, 'x, bool) handler_output" where
  "until_timer_output = \<lparr>at_subscribe = [], start = False, react = until_timer_react\<rparr>"

definition identity_handlers :: "(string \<times> nat, string \<times> nat, string, bool) handlers" where
  "identity_handlers = ByFunction (\<lambda>key. identity_output)"

definition until_timer_handlers :: "(string \<times> nat, string \<times> nat, string, bool) handlers" where
  "until_timer_handlers = ByFunction (\<lambda>key. until_timer_output)"

definition take1_for_A :: "(string \<times> nat, string \<times> nat, string, bool) handlers" where
  "take1_for_A = ByFunction (\<lambda>key. if key = ''A'' then take1_output else identity_output)"


text \<open>
  States for evaluation: after the event \<open>(A, 1)\<close> with the flow itself as handler
  output; with one flow, whose output is its first element; and with two flows, that of
  \<open>A\<close> until a timer fires and that of \<open>B\<close> its first element.
\<close>

definition state_after_A1 :: "(string \<times> nat, string \<times> nat, string, bool) sm_state" where
  "state_after_A1 =
     \<lparr>flows = [(''A'', \<lparr>chain = identity_output, chain_state = False, subscribed = True\<rparr>)],
      merged = \<lparr>emitted = [OnNext (''A'', 1)], stopped = False\<rparr>,
      invoked = [''A''], raised = []\<rparr>"

definition state_one_flow :: "(string \<times> nat, string \<times> nat, string, bool) sm_state" where
  "state_one_flow =
     \<lparr>flows = [(''A'', \<lparr>chain = take1_output, chain_state = False, subscribed = True\<rparr>)],
      merged = \<lparr>emitted = [], stopped = False\<rparr>,
      invoked = [''A''], raised = []\<rparr>"

definition state_two_flows :: "(string \<times> nat, string \<times> nat, string, bool) sm_state" where
  "state_two_flows =
     \<lparr>flows = [(''A'', \<lparr>chain = until_timer_output, chain_state = False, subscribed = True\<rparr>),
               (''B'', \<lparr>chain = take1_output, chain_state = False, subscribed = True\<rparr>)],
      merged = \<lparr>emitted = [OnNext (''A'', 1)], stopped = False\<rparr>,
      invoked = [''A'', ''B''], raised = []\<rparr>"

section \<open>Properties of the idifier\<close>

lemma get_set_prop_same: "get (set_prop e f v) f = v"
  by (simp add: get_def set_prop_def update_conv')

lemma run_getters_ok:
  "(\<forall>f \<in> set fs. \<not> eq_null (get e f)) \<Longrightarrow> run_getters fs e = Inr (map (get e) fs)"
  by (induction fs) (simp_all add: getter_def)

lemma run_getters_missing:
  "f \<in> set fs \<Longrightarrow> eq_null (get e f) \<Longrightarrow>
   \<exists>g \<in> set fs. eq_null (get e g) \<and> run_getters fs e = Inl (MissingField (get e ''type'') g)"
proof (induction fs)
  case Nil
  then show ?case by simp
next
  case (Cons a fs)
  show ?case
  proof (cases "eq_null (get e a)")
    case True
    then show ?thesis by (auto simp: getter_def)
  next
    case False
    with Cons.prems have "f \<in> set fs" by auto
    from Cons.IH [OF this Cons.prems(2)] False show ?thesis
      by (auto simp: getter_def)
  qed
qed

lemmas idify_eval = idify_def get_def idifiers_def buildHasher_def getter_def hashVals_def
  set_prop_def toy_digest_def object_prototype_names_def call_inherited_def

text \<open>
  A wizard event with \<open>subType\<close> and \<open>ts\<close> but no \<open>deviceId\<close> gets no id from
  (type, subType, ts): the wizard recipe reads \<open>deviceId\<close>.
\<close>

theorem wizard_recipe_counterexample:
  "idify toy_digest wizard_no_device = Inl (MissingField (JStr ''wizard'') ''deviceId'') \<and>
   idify toy_digest wizard_no_device \<noteq>
     Inr (set_prop wizard_no_device ''id''
       (JStr (hashVals toy_digest
          [get wizard_no_device ''type'', get wizard_no_device ''subType'',
           get wizard_no_device ''ts''])))"
  by (simp add: idify_eval wizard_no_device_def)

text \<open>
  Claim C2, amended. The recipes are basal: (type, deliveryType, deviceId, ts); bolus:
  (type, subType, deviceId, ts); cbg, smbg, settings and wizard: (type, deviceId, ts);
  deviceMeta: (type, subType, ts). For an event without an id whose type has the recipe
  \<open>fs\<close> and that has every field of \<open>fs\<close>, \<^verbatim>\<open>idify\<close> sets the id to the
  encoded digest of the concatenated string forms of those fields, in recipe order.
\<close>

theorem idify_recipes:
  "map_of idifiers ''basal'' = Some [''type'', ''deliveryType'', ''deviceId'', ''ts''] \<and>
   map_of idifiers ''bolus'' = Some [''type'', ''subType'', ''deviceId'', ''ts''] \<and>
   map_of idifiers ''cbg'' = Some [''type'', ''deviceId'', ''ts''] \<and>
   map_of idifiers ''smbg'' = Some [''type'', ''deviceId'', ''ts''] \<and>
   map_of idifiers ''settings'' = Some [''type'', ''deviceId'', ''ts''] \<and>
   map_of idifiers ''deviceMeta'' = Some [''type'', ''subType'', ''ts''] \<and>
   map_of idifiers ''wizard'' = Some [''type'', ''deviceId'', ''ts''] \<and>
   (eq_null (get e ''id'') \<and> get e ''type'' = JStr k \<and> map_of idifiers k = Some fs \<and>
    (\<forall>f \<in> set fs. \<not> eq_null (get e f)) \<longrightarrow>
    idify H e = Inr (set_prop e ''id'' (JStr (H (concat (map (\<lambda>f. String_js (get e f)) fs))))))"
proof -
  have tbl: "map_of idifiers ''basal'' = Some [''type'', ''deliveryType'', ''deviceId'', ''ts'']"
    "map_of idifiers ''bolus'' = Some [''type'', ''subType'', ''deviceId'', ''ts'']"
    "map_of idifiers ''cbg'' = Some [''type'', ''deviceId'', ''ts'']"
    "map_of idifiers ''smbg'' = Some [''type'', ''deviceId'', ''ts'']"
    "map_of idifiers ''settings'' = Some [''type'', ''deviceId'', ''ts'']"
    "map_of idifiers ''deviceMeta'' = Some [''type'', ''subType'', ''ts'']"
    "map_of idifiers ''wizard'' = Some [''type'', ''deviceId'', ''ts'']"
    by (simp_all add: idifiers_def)
  have gen: "idify H e = Inr (set_prop e ''id'' (JStr (H (concat (map (\<lambda>f. String_js (get e f)) fs)))))"
    if "eq_null (get e ''id'')" "get e ''type'' = JStr k" "map_of idifiers k = Some fs"
      "\<forall>f \<in> set fs. \<not> eq_null (get e f)"
    using that by (simp add: idify_def buildHasher_def run_getters_ok hashVals_def o_def)
  from tbl gen show ?thesis by blast
qed

theorem idify_recipes_witness:
  "eq_null (get wizard_event ''id'') \<and> get wizard_event ''type'' = JStr ''wizard'' \<and>
   \<not> eq_null (get wizard_event ''type'') \<and> \<not> eq_null (get wizard_event ''deviceId'') \<and>
   \<not> eq_null (get wizard_event ''ts'') \<and>
   idify toy_digest wizard_event =
     Inr (wizard_event @ [(''id'', JStr ''#wizardd1100'')])"
  using idify_recipes [where e = wizard_event and k = "''wizard''"
      and fs = "[''type'', ''deviceId'', ''ts'']" and H = toy_digest]
  by (simp add: wizard_event_def get_def set_prop_def toy_digest_def)

text \<open>
  Claim C7. An event whose id is set (neither \<^verbatim>\<open>null\<close> nor \<^verbatim>\<open>undefined\<close>)
  is returned unchanged; the event a call returns is returned unchanged by a second call;
  on the heap, a second call on the same reference gives the outcome and the heap of the
  first.
\<close>

theorem idify_idempotent:
  "(\<not> eq_null (get e ''id'') \<longrightarrow> idify H e = Inr e) \<and>
   (idify H e = Inr e' \<longrightarrow> idify H e' = Inr e') \<and>
   idify_at H r (snd (idify_at H r h)) = idify_at H r h"
proof -
  have a: "idify H x = Inr x" if "\<not> eq_null (get x ''id'')" for x
    using that by (simp add: idify_def)
  have b: "idify H y = Inr y" if "idify H x = Inr y" for x y
  proof (cases "eq_null (get x ''id'')")
    case False
    with that have "y = x" by (simp add: idify_def)
    with False show ?thesis by (simp add: a)
  next
    case True
    with that obtain v where "y = set_prop x ''id'' v" and "\<not> eq_null v"
      by (auto simp: idify_def call_inherited_def split: option.splits sum.splits if_splits)
    then have "\<not> eq_null (get y ''id'')" by (simp add: get_set_prop_same)
    then show ?thesis by (rule a)
  qed
  have c: "idify_at H r (snd (idify_at H r h)) = idify_at H r h"
  proof (cases "idify H (h ! r)")
    case (Inl err)
    then show ?thesis by (simp add: idify_at_def)
  next
    case (Inr y)
    show ?thesis
    proof (cases "r < length h")
      case True
      with Inr b [OF Inr] show ?thesis by (simp add: idify_at_def)
    next
      case False
      then have "h[r := y] = h" by (simp add: list_update_beyond)
      with Inr show ?thesis by (simp add: idify_at_def)
    qed
  qed
  from a b c show ?thesis by blast
qed

theorem idify_idempotent_witness:
  "\<not> eq_null (get (wizard_event @ [(''id'', JStr ''#wizardd1100'')]) ''id'') \<and>
   idify toy_digest wizard_event = Inr (wizard_event @ [(''id'', JStr ''#wizardd1100'')]) \<and>
   idify toy_digest (wizard_event @ [(''id'', JStr ''#wizardd1100'')]) =
     Inr (wizard_event @ [(''id'', JStr ''#wizardd1100'')])"
  using idify_idempotent [where e = "wizard_event @ [(''id'', JStr ''#wizardd1100'')]"
      and H = toy_digest]
  by (simp add: idify_eval wizard_event_def)

text \<open>
  For an event without an id whose type names neither a recipe nor an inherited member, the
  call fails with the unknown-type error carrying the type and the timestamp; with a recipe
  of which some field is \<^verbatim>\<open>null\<close> or absent it fails with the missing-field error
  naming the type and such a field. A failing call leaves the heap as it was, and the id of
  the event unset.
\<close>

lemma idify_failure_cases:
  "(eq_null (get e ''id'') \<and> map_of idifiers (String_js (get e ''type'')) = None \<and>
    String_js (get e ''type'') \<notin> set object_prototype_names \<longrightarrow>
      idify H e = Inl (UnknownType (get e ''type'') (get e ''ts''))) \<and>
   (eq_null (get e ''id'') \<and> map_of idifiers (String_js (get e ''type'')) = Some fs \<and>
    f \<in> set fs \<and> eq_null (get e f) \<longrightarrow>
      (\<exists>g \<in> set fs. eq_null (get e g) \<and> idify H e = Inl (MissingField (get e ''type'') g))) \<and>
   (fst (idify_at H r h) = Some err \<longrightarrow>
      snd (idify_at H r h) = h \<and> eq_null (get (h ! r) ''id''))"
proof -
  have a: "idify H e = Inl (UnknownType (get e ''type'') (get e ''ts''))"
    if "eq_null (get e ''id'')" "map_of idifiers (String_js (get e ''type'')) = None"
      "String_js (get e ''type'') \<notin> set object_prototype_names"
    using that by (simp add: idify_def)
  have b: "\<exists>g \<in> set fs. eq_null (get e g) \<and> idify H e = Inl (MissingField (get e ''type'') g)"
    if "eq_null (get e ''id'')" "map_of idifiers (String_js (get e ''type'')) = Some fs"
      "f \<in> set fs" "eq_null (get e f)"
  proof -
    from run_getters_missing [OF that(3,4)] obtain g where
      g: "g \<in> set fs" "eq_null (get e g)" "run_getters fs e = Inl (MissingField (get e ''type'') g)"
      by blast
    from that(1,2) g(3) have "idify H e = Inl (MissingField (get e ''type'') g)"
      by (simp add: idify_def buildHasher_def)
    with g show ?thesis by blast
  qed
  have c: "snd (idify_at H r h) = h \<and> eq_null (get (h ! r) ''id'')"
    if "fst (idify_at H r h) = Some err"
    using that by (auto simp: idify_at_def idify_def split: sum.splits if_splits)
  from a b c show ?thesis by blast
qed

lemma idify_failure_examples:
  "idify toy_digest food_event = Inl (UnknownType (JStr ''food'') (JNum ''5'')) \<and>
   idify toy_digest basal_no_ts = Inl (MissingField (JStr ''basal'') ''ts'') \<and>
   idify_at toy_digest 0 [basal_no_ts] =
     (Some (MissingField (JStr ''basal'') ''ts''), [basal_no_ts])"
  using idify_failure_cases [where e = food_event and H = toy_digest]
    idify_failure_cases [where e = basal_no_ts and H = toy_digest and f = "''ts''"
      and fs = "[''type'', ''deliveryType'', ''deviceId'', ''ts'']" and r = 0
      and h = "[basal_no_ts]" and err = "MissingField (JStr ''basal'') ''ts''"]
  by (simp add: idify_at_def idify_eval food_event_def basal_no_ts_def)

text \<open>
  Claim C8, at the event \<^verbatim>\<open>{type: 'toString', ts: 5}\<close>. No recipe is registered
  for the type, yet \<^verbatim>\<open>idifiers['toString']\<close> is the inherited member and not
  \<^verbatim>\<open>null\<close>: no unknown-type error is raised, and the event is returned with the id
  \<^verbatim>\<open>[object Undefined]\<close>.
\<close>

theorem idify_inherited_type:
  "map_of idifiers (String_js (get toString_event ''type'')) = None \<and>
   idify H toString_event =
     Inr [(''type'', JStr ''toString''), (''ts'', JNum ''5''),
          (''id'', JStr ''[object Undefined]'')]"
  by (simp add: idify_def get_def idifiers_def set_prop_def object_prototype_names_def
      call_inherited_def toString_event_def)

section \<open>Properties of the TempBasalJoiner\<close>

lemmas join_eval = join_step_def join_fn_def keep_emit_def pick_def assign_def idify_at_def


lemma pick_fold_keys:
  "fst ` set (fold (\<lambda>key result. case map_of e key of None \<Rightarrow> result
                                           | Some v \<Rightarrow> AList.update key v result) props acc)
   = fst ` set acc \<union> (set props \<inter> fst ` set e)"
proof (induction props arbitrary: acc)
  case Nil
  then show ?case by simp
next
  case (Cons p props)
  show ?case
  proof (cases "map_of e p")
    case None
    then have "p \<notin> fst ` set e" by (simp add: map_of_eq_None_iff)
    with None Cons.IH [of acc] show ?thesis by auto
  next
    case (Some v)
    then have "p \<in> fst ` set e" by (metis map_of_eq_None_iff option.distinct(1))
    with Some Cons.IH [of "AList.update p v acc"] show ?thesis
      by (auto simp: dom_update)
  qed
qed

lemma pick_keys: "fst ` set (pick e props) = set props \<inter> fst ` set e"
  by (simp add: pick_def pick_fold_keys)

lemma pick_fold_map_of:
  "map_of (fold (\<lambda>key result. case map_of e key of None \<Rightarrow> result
                                           | Some v \<Rightarrow> AList.update key v result) props acc) k
   = (if k \<in> set props \<and> map_of e k \<noteq> None then map_of e k else map_of acc k)"
proof (induction props arbitrary: acc)
  case Nil
  then show ?case by simp
next
  case (Cons p props)
  show ?case
  proof (cases "map_of e p")
    case None
    with Cons.IH [of acc] show ?thesis by auto
  next
    case (Some v)
    with Cons.IH [of "AList.update p v acc"] show ?thesis
      by (auto simp: update_conv')
  qed
qed

lemma get_pick: "get (pick e props) k = (if k \<in> set props then get e k else JUndefined)"
  by (auto simp: get_def pick_def pick_fold_map_of split: option.splits)

lemma assign_two_keys:
  "fst ` set (assign d [(a, x), (b, y)]) = fst ` set d \<union> {a, b}"
  by (auto simp: assign_def dom_update)

lemma get_assign_two:
  "get (assign d [(a, x), (b, y)]) k = (if k = b then y else if k = a then x else get d k)"
  by (simp add: assign_def get_def update_conv')


lemma join_fn_stop_active:
  assumes "get (h ! r) ''type'' = JStr ''basal''" "get (h ! r) ''deliveryType'' = JStr ''temp''"
    "get (h ! r) ''duration'' = JNum ''0''"
  shows "join_step (Some t) r h =
    ([length h], None,
     h @ [assign (pick (h ! r) [''type'', ''deviceTime'', ''deviceId'', ''source''])
            [(''deliveryType'', JStr ''temp-stop''), (''tempId'', get (h ! t) ''id'')]])"
  using assms by (simp add: join_step_def join_fn_def keep_emit_def)

lemma join_fn_stop_idle:
  assumes "get (h ! r) ''type'' = JStr ''basal''" "get (h ! r) ''deliveryType'' = JStr ''temp''"
    "get (h ! r) ''duration'' = JNum ''0''"
  shows "join_step None r h = ([], None, h)"
  using assms by (simp add: join_step_def join_fn_def keep_emit_def)

text \<open>
  Claim C6. A temp basal event with duration zero, at reference \<open>r\<close>: with no temp
  remembered the joiner emits nothing and stays idle; with the temp \<open>t\<close> remembered it
  emits exactly one reference, that of a new object, not \<open>r\<close>, which has the \<open>type\<close>,
  \<open>deviceTime\<close>, \<open>deviceId\<close> and \<open>source\<close> of the event, \<open>deliveryType\<close>
  \<^verbatim>\<open>temp-stop\<close> and as \<open>tempId\<close> the id of \<open>t\<close>, and it becomes idle.
\<close>

theorem temp_stop_joined:
  "get (h ! r) ''type'' = JStr ''basal'' \<and> get (h ! r) ''deliveryType'' = JStr ''temp'' \<and>
   get (h ! r) ''duration'' = JNum ''0'' \<and> r < length h \<longrightarrow>
   join_step None r h = ([], None, h) \<and>
   (\<exists>synth. join_step (Some t) r h = ([length h], None, h @ [synth]) \<and> length h \<noteq> r \<and>
      get synth ''type'' = get (h ! r) ''type'' \<and>
      get synth ''deviceTime'' = get (h ! r) ''deviceTime'' \<and>
      get synth ''deviceId'' = get (h ! r) ''deviceId'' \<and>
      get synth ''source'' = get (h ! r) ''source'' \<and>
      get synth ''deliveryType'' = JStr ''temp-stop'' \<and>
      get synth ''tempId'' = get (h ! t) ''id'')"
proof (intro impI, elim conjE)
  assume a: "get (h ! r) ''type'' = JStr ''basal''" "get (h ! r) ''deliveryType'' = JStr ''temp''"
    "get (h ! r) ''duration'' = JNum ''0''" and r: "r < length h"
  let ?synth = "assign (pick (h ! r) [''type'', ''deviceTime'', ''deviceId'', ''source''])
            [(''deliveryType'', JStr ''temp-stop''), (''tempId'', get (h ! t) ''id'')]"
  have "join_step (Some t) r h = ([length h], None, h @ [?synth])"
    using a by (rule join_fn_stop_active)
  moreover have "get ?synth ''type'' = get (h ! r) ''type''"
    "get ?synth ''deviceTime'' = get (h ! r) ''deviceTime''"
    "get ?synth ''deviceId'' = get (h ! r) ''deviceId''"
    "get ?synth ''source'' = get (h ! r) ''source''"
    "get ?synth ''deliveryType'' = JStr ''temp-stop''"
    "get ?synth ''tempId'' = get (h ! t) ''id''"
    by (simp_all add: get_assign_two get_pick)
  moreover from r have "length h \<noteq> r" by simp
  ultimately have "\<exists>synth. join_step (Some t) r h = ([length h], None, h @ [synth]) \<and> length h \<noteq> r \<and>
      get synth ''type'' = get (h ! r) ''type'' \<and>
      get synth ''deviceTime'' = get (h ! r) ''deviceTime'' \<and>
      get synth ''deviceId'' = get (h ! r) ''deviceId'' \<and>
      get synth ''source'' = get (h ! r) ''source'' \<and>
      get synth ''deliveryType'' = JStr ''temp-stop'' \<and>
      get synth ''tempId'' = get (h ! t) ''id''"
    by blast
  with join_fn_stop_idle [OF a]
  show "join_step None r h = ([], None, h) \<and>
   (\<exists>synth. join_step (Some t) r h = ([length h], None, h @ [synth]) \<and> length h \<noteq> r \<and>
      get synth ''type'' = get (h ! r) ''type'' \<and>
      get synth ''deviceTime'' = get (h ! r) ''deviceTime'' \<and>
      get synth ''deviceId'' = get (h ! r) ''deviceId'' \<and>
      get synth ''source'' = get (h ! r) ''source'' \<and>
      get synth ''deliveryType'' = JStr ''temp-stop'' \<and>
      get synth ''tempId'' = get (h ! t) ''id'')"
    by blast
qed

theorem temp_stop_joined_witness:
  "get ([temp_started, temp_cancel] ! 1) ''type'' = JStr ''basal'' \<and>
   get ([temp_started, temp_cancel] ! 1) ''deliveryType'' = JStr ''temp'' \<and>
   get ([temp_started, temp_cancel] ! 1) ''duration'' = JNum ''0'' \<and>
   (1::nat) < length [temp_started, temp_cancel] \<and>
   join_step None 1 [temp_started, temp_cancel] = ([], None, [temp_started, temp_cancel]) \<and>
   join_step (Some 0) 1 [temp_started, temp_cancel] =
     ([2], None,
      [temp_started, temp_cancel,
       [(''type'', JStr ''basal''), (''deviceTime'', JStr ''2014-01-01T10:20:00''),
        (''deviceId'', JStr ''d1''), (''source'', JStr ''carelink''),
        (''deliveryType'', JStr ''temp-stop''), (''tempId'', JStr ''abc'')]])"
  using temp_stop_joined [where h = "[temp_started, temp_cancel]" and r = 1 and t = 0]
  by (simp add: join_eval get_def temp_started_def temp_cancel_def)

text \<open>
  A temp basal event and its stop through the joiner: the first passes unchanged, the
  second is replaced by the synthesized stop event.
\<close>

lemma tempBasalJoin_start_stop:
  "tempBasalJoin [0, 1] None [temp_started, temp_cancel] =
     ([0, 2], None,
      [temp_started, temp_cancel,
       [(''type'', JStr ''basal''), (''deviceTime'', JStr ''2014-01-01T10:20:00''),
        (''deviceId'', JStr ''d1''), (''source'', JStr ''carelink''),
        (''deliveryType'', JStr ''temp-stop''), (''tempId'', JStr ''abc'')]])"
  by (simp add: join_eval get_def temp_started_def temp_cancel_def)

text \<open>The scenario does not yield two output events: the second one fails in \<^verbatim>\<open>idify\<close>.\<close>

theorem temp_scenario_counterexample:
  "fst (snd (join_then_idify toy_digest [0, 1] None [temp_start, temp_stop])) =
     Some (MissingField (JStr ''basal'') ''ts'') \<and>
   length (fst (join_then_idify toy_digest [0, 1] None [temp_start, temp_stop])) \<noteq> 2"
  by (simp add: join_eval idify_eval temp_start_def temp_stop_def)

text \<open>
  Claim C3, amended. The two events of the scenario, through the joiner and then
  \<^verbatim>\<open>idify\<close>, give one output event, the first event with the id hashed from
  (type, deliveryType, deviceId, ts = 100), and then the missing-field error for type basal
  and field \<open>ts\<close>: the synthesized stop event has \<open>type\<close>, \<open>deviceId\<close>,
  \<open>deliveryType\<close> \<^verbatim>\<open>temp-stop\<close> and \<open>tempId\<close> equal to the first event's id, but
  no \<open>ts\<close>, and so gets no id.
\<close>

theorem temp_scenario:
  "join_then_idify H [0, 1] None [temp_start, temp_stop] =
     ([0], Some (MissingField (JStr ''basal'') ''ts''),
      [temp_start @ [(''id'', JStr (H ''basaltempd1100''))],
       temp_stop,
       [(''type'', JStr ''basal''), (''deviceId'', JStr ''d1''),
        (''deliveryType'', JStr ''temp-stop''),
        (''tempId'', JStr (H ''basaltempd1100''))]])"
  by (simp add: join_eval idify_def get_def idifiers_def buildHasher_def getter_def hashVals_def
      set_prop_def temp_start_def temp_stop_def)

text \<open>
  The stop event of the scenario has neither \<open>deviceTime\<close> nor \<open>source\<close>: the
  synthesized event has four fields.
\<close>

theorem stop_event_fields_counterexample:
  "join_step (Some 0) 1 [temp_start, temp_stop] =
     ([2], None,
      [temp_start, temp_stop,
       [(''type'', JStr ''basal''), (''deviceId'', JStr ''d1''),
        (''deliveryType'', JStr ''temp-stop''), (''tempId'', JUndefined)]]) \<and>
   map fst (snd (snd (join_step (Some 0) 1 [temp_start, temp_stop])) ! 2) =
     [''type'', ''deviceId'', ''deliveryType'', ''tempId'']"
  by (simp add: join_eval get_def temp_start_def temp_stop_def)

text \<open>
  Claim C10, amended. The synthesized event has the fields \<open>type\<close>, \<open>deliveryType\<close>
  and \<open>tempId\<close>, and each of \<open>deviceTime\<close>, \<open>deviceId\<close> and \<open>source\<close> exactly
  when the original event has it; it has no other field, in particular neither \<open>ts\<close>
  nor \<open>duration\<close>.
\<close>

theorem stop_event_fields:
  "get (h ! r) ''type'' = JStr ''basal'' \<and> get (h ! r) ''deliveryType'' = JStr ''temp'' \<and>
   get (h ! r) ''duration'' = JNum ''0'' \<longrightarrow>
   (\<exists>synth. join_step (Some t) r h = ([length h], None, h @ [synth]) \<and>
      fst ` set synth =
        {''type'', ''deliveryType'', ''tempId''} \<union>
        ({''deviceTime'', ''deviceId'', ''source''} \<inter> fst ` set (h ! r)) \<and>
      ''ts'' \<notin> fst ` set synth \<and> ''duration'' \<notin> fst ` set synth)"
proof (intro impI, elim conjE)
  assume a: "get (h ! r) ''type'' = JStr ''basal''" "get (h ! r) ''deliveryType'' = JStr ''temp''"
    "get (h ! r) ''duration'' = JNum ''0''"
  let ?synth = "assign (pick (h ! r) [''type'', ''deviceTime'', ''deviceId'', ''source''])
            [(''deliveryType'', JStr ''temp-stop''), (''tempId'', get (h ! t) ''id'')]"
  have step: "join_step (Some t) r h = ([length h], None, h @ [?synth])"
    using a by (rule join_fn_stop_active)
  from a(1) have "map_of (h ! r) ''type'' \<noteq> None"
    by (auto simp: get_def split: option.splits)
  then have ty: "''type'' \<in> fst ` set (h ! r)"
    by (simp add: map_of_eq_None_iff)
  have keys: "fst ` set ?synth =
        {''type'', ''deliveryType'', ''tempId''} \<union>
        ({''deviceTime'', ''deviceId'', ''source''} \<inter> fst ` set (h ! r))"
    using ty by (auto simp: assign_two_keys pick_keys)
  then have "''ts'' \<notin> fst ` set ?synth" "''duration'' \<notin> fst ` set ?synth"
    by auto
  with step keys
  show "\<exists>synth. join_step (Some t) r h = ([length h], None, h @ [synth]) \<and>
      fst ` set synth =
        {''type'', ''deliveryType'', ''tempId''} \<union>
        ({''deviceTime'', ''deviceId'', ''source''} \<inter> fst ` set (h ! r)) \<and>
      ''ts'' \<notin> fst ` set synth \<and> ''duration'' \<notin> fst ` set synth"
    by blast
qed

theorem stop_event_fields_witness:
  "(get ([temp_started, temp_cancel] ! 1) ''type'' = JStr ''basal'' \<and>
    get ([temp_started, temp_cancel] ! 1) ''deliveryType'' = JStr ''temp'' \<and>
    get ([temp_started, temp_cancel] ! 1) ''duration'' = JNum ''0'') \<and>
   (\<exists>synth. join_step (Some 0) 1 [temp_started, temp_cancel] =
        ([length [temp_started, temp_cancel]], None, [temp_started, temp_cancel] @ [synth]) \<and>
      fst ` set synth =
        {''type'', ''deliveryType'', ''tempId''} \<union>
        ({''deviceTime'', ''deviceId'', ''source''} \<inter> fst ` set ([temp_started, temp_cancel] ! 1)) \<and>
      ''ts'' \<notin> fst ` set synth \<and> ''duration'' \<notin> fst ` set synth)"
proof -
  have hyp: "get ([temp_started, temp_cancel] ! 1) ''type'' = JStr ''basal'' \<and>
    get ([temp_started, temp_cancel] ! 1) ''deliveryType'' = JStr ''temp'' \<and>
    get ([temp_started, temp_cancel] ! 1) ''duration'' = JNum ''0''"
    by (simp add: get_def temp_cancel_def)
  from hyp stop_event_fields [where h = "[temp_started, temp_cancel]" and r = 1 and t = 0,
      THEN mp, OF hyp]
  show ?thesis by (rule conjI)
qed

section \<open>Properties of \<^verbatim>\<open>readline\<close>\<close>

lemma split_lf_nonempty: "split_lf s \<noteq> []"
  by (induction s) (auto split: list.splits)

lemma split_lf_append:
  "split_lf (s @ t) = butlast (split_lf s) @ split_lf (last (split_lf s) @ t)"
proof (induction s)
  case Nil
  then show ?case by simp
next
  case (Cons c s)
  obtain x xs where sp: "split_lf s = x # xs"
    using split_lf_nonempty [of s] by (cases "split_lf s") auto
  obtain y ys where spt: "split_lf (s @ t) = y # ys"
    using split_lf_nonempty [of "s @ t"] by (cases "split_lf (s @ t)") auto
  show ?case
  proof (cases "c = LF")
    case True
    with Cons sp show ?thesis by (simp add: split_lf_nonempty)
  next
    case False
    show ?thesis
    proof (cases xs)
      case Nil
      with Cons sp False show ?thesis by simp
    next
      case (Cons x' xs')
      with Cons.IH sp False show ?thesis by simp
    qed
  qed
qed

lemma split_lf_line: "LF \<notin> set l \<Longrightarrow> split_lf (l @ LF # t) = l # split_lf t"
  by (induction l) auto

lemma split_lf_plain: "LF \<notin> set l \<Longrightarrow> split_lf l = [l]"
  by (induction l) auto

lemma split_lf_lines:
  "(\<forall>l \<in> set ls. LF \<notin> set l) \<Longrightarrow> LF \<notin> set frag \<Longrightarrow>
   split_lf (concat (map (\<lambda>l. l @ [LF]) ls) @ frag) = ls @ [frag]"
  by (induction ls) (simp_all add: split_lf_plain split_lf_line)

lemma split_lf_last_plain: "LF \<notin> set (last (split_lf s))"
proof (induction s)
  case Nil
  then show ?case by simp
next
  case (Cons c s)
  then show ?case
    by (cases "split_lf s") (auto simp: split_lf_nonempty split: if_splits)
qed

lemma readline_feed_split:
  "LF \<notin> set b \<Longrightarrow>
   readline_feed b chunks =
     (map (\<lambda>s. s @ [LF]) (butlast (split_lf (b @ concat chunks))),
      last (split_lf (b @ concat chunks)))"
proof (induction chunks arbitrary: b)
  case Nil
  then show ?case by (simp add: split_lf_plain)
next
  case (Cons e es)
  have "split_lf (b @ e @ concat es) =
      butlast (split_lf (b @ e)) @ split_lf (last (split_lf (b @ e)) @ concat es)"
    using split_lf_append [of "b @ e" "concat es"] by simp
  then show ?case
    by (simp add: readline_onNext_def Let_def Cons.IH split_lf_last_plain butlast_append split_lf_nonempty)
qed

text \<open>Two terminated lines give three elements.\<close>

theorem readline_lines_counterexample:
  "readline [[CHR ''a'', LF, CHR ''b'', LF]] (None :: unit option) =
     [OnNext [CHR ''a'', LF], OnNext [CHR ''b'', LF], OnNext [], OnCompleted]"
  by (simp add: readline_def readline_onNext_def)

text \<open>
  Claim C5, amended. When the chunks concatenate to \<open>N\<close> lines, each ended by a line
  feed, followed by a fragment without line feed, \<^verbatim>\<open>readline\<close> emits the \<open>N\<close> lines
  with their terminators, then the fragment, then the completion. The fragment is emitted
  also when it is empty: after \<open>N\<close> terminated lines there is one more element, the
  empty string.
\<close>

theorem readline_lines:
  "(\<forall>l \<in> set ls. LF \<notin> set l) \<and> LF \<notin> set frag \<and>
   concat chunks = concat (map (\<lambda>l. l @ [LF]) ls) @ frag \<longrightarrow>
   readline chunks None = map (\<lambda>l. OnNext (l @ [LF])) ls @ [OnNext frag, OnCompleted]"
proof (intro impI, elim conjE)
  assume ls: "\<forall>l \<in> set ls. LF \<notin> set l" and frag: "LF \<notin> set frag"
    and bytes: "concat chunks = concat (map (\<lambda>l. l @ [LF]) ls) @ frag"
  have "split_lf (concat chunks) = ls @ [frag]"
    unfolding bytes using ls frag by (rule split_lf_lines)
  then have "readline_feed [] chunks = (map (\<lambda>s. s @ [LF]) ls, frag)"
    by (simp add: readline_feed_split)
  then show "readline chunks None = map (\<lambda>l. OnNext (l @ [LF])) ls @ [OnNext frag, OnCompleted]"
    by (simp add: readline_def o_def)
qed

theorem readline_lines_witness:
  "LF \<notin> set ''ab'' \<and> LF \<notin> set ''c'' \<and> LF \<notin> set ''de'' \<and>
   concat [[CHR ''a''], [CHR ''b'', LF, CHR ''c''], [LF, CHR ''d'', CHR ''e'']] =
     concat (map (\<lambda>l. l @ [LF]) [''ab'', ''c'']) @ ''de'' \<and>
   readline [[CHR ''a''], [CHR ''b'', LF, CHR ''c''], [LF, CHR ''d'', CHR ''e'']] (None :: unit option) =
     [OnNext [CHR ''a'', CHR ''b'', LF], OnNext [CHR ''c'', LF], OnNext ''de'', OnCompleted]"
  using readline_lines [where ls = "[''ab'', ''c'']" and frag = "''de''"
      and chunks = "[[CHR ''a''], [CHR ''b'', LF, CHR ''c''], [LF, CHR ''d'', CHR ''e'']]"]
  by simp

section \<open>Properties of \<^verbatim>\<open>splitMerge\<close>\<close>

lemmas sm_eval = splitMerge_def sm_init_def sm_onNext_def sm_onError_def sm_onCompleted_def
  push_flow_def call_handlers_def observer_onNext_def observer_onError_def
  observer_onCompleted_def Object_keys_def is_array_index_def digits_value_def
  object_prototype_names_def Let_def

lemma length_Object_keys: "length (Object_keys ob) = length ob"
proof -
  have "length (filter is_array_index (map fst ob)) +
      length (filter (\<lambda>k. \<not> is_array_index k) (map fst ob)) = length (map fst ob)"
    by (rule sum_length_filter_compl)
  then show ?thesis by (simp add: Object_keys_def)
qed

lemma Object_keys_order:
  "Object_keys [(''b'', x), (''10'', y), (''9'', z), (''a'', w)] = [''9'', ''10'', ''b'', ''a'']"
  by (simp add: Object_keys_def is_array_index_def digits_value_def)

text \<open>
  The events with keys \<open>A\<close>, \<open>A\<close>, \<open>B\<close>, \<open>A\<close>, every handler output being its
  flow: the merged output completes when the input has completed and both flows with it.
\<close>

lemma merge_identity_handlers:
  "merged (splitMerge fst identity_handlers
      [Arrives (''A'', 1), Arrives (''A'', 2), Arrives (''B'', 3), Arrives (''A'', 4)] Live) =
     \<lparr>emitted = [OnNext (''A'', 1), OnNext (''A'', 2), OnNext (''B'', 3), OnNext (''A'', 4)],
      stopped = False\<rparr> \<and>
   merged (splitMerge fst identity_handlers
      [Arrives (''A'', 1), Arrives (''A'', 2), Arrives (''B'', 3), Arrives (''A'', 4)] Completes) =
     \<lparr>emitted = [OnNext (''A'', 1), OnNext (''A'', 2), OnNext (''B'', 3), OnNext (''A'', 4),
                 OnCompleted],
      stopped = True\<rparr>"
  by (simp add: sm_eval identity_handlers_def identity_output_def)

text \<open>
  One event with key \<open>A\<close>, the handler output being the first element of the flow: the
  merged output has completed, and the input is still live. The same when the handler
  output ends on a timer of its own that fires after the event.
\<close>

theorem early_completion_counterexample:
  "splitMerge fst take1_for_A [Arrives (''A'', 1)] Live =
     \<lparr>flows = [],
      merged = \<lparr>emitted = [OnNext (''A'', 1), OnCompleted], stopped = True\<rparr>,
      invoked = [''A''], raised = []\<rparr> \<and>
   splitMerge fst until_timer_handlers [Arrives (''A'', 1), Wakes ''A''] Live =
     \<lparr>flows = [],
      merged = \<lparr>emitted = [OnNext (''A'', 1), OnCompleted], stopped = True\<rparr>,
      invoked = [''A''], raised = []\<rparr>"
  by (simp add: sm_eval take1_for_A_def take1_output_def identity_output_def
      until_timer_handlers_def until_timer_output_def)

text \<open>
  Claim C4, at the events with keys \<open>B\<close>, \<open>A\<close>, \<open>A\<close>, the handler output for
  \<open>A\<close> being the first element of its flow: the entry of \<open>A\<close> is removed when
  that output completes, the entry of \<open>B\<close> keeps the table non-empty, and the second
  event with key \<open>A\<close> calls the handler for \<open>A\<close> again.
\<close>

theorem handler_called_again:
  "invoked (splitMerge fst take1_for_A
      [Arrives (''B'', 1), Arrives (''A'', 2), Arrives (''A'', 3)] Live) =
     [''B'', ''A'', ''A'']"
  by (simp add: sm_eval take1_for_A_def take1_output_def identity_output_def)

lemma deliver_values:
  "\<not> stopped (merged st) \<Longrightarrow>
   deliver key (map OnNext vs @ ns) st =
     deliver key ns (st\<lparr>merged := \<lparr>emitted = emitted (merged st) @ map OnNext vs, stopped = False\<rparr>\<rparr>)"
proof (induction vs arbitrary: st)
  case Nil
  then have "\<lparr>emitted = emitted (merged st), stopped = False\<rparr> = merged st"
    by (cases "merged st") simp
  then show ?case by simp
next
  case (Cons v vs)
  then show ?case by (simp add: observer_onNext_def)
qed

lemma map_entry_absent: "map_of al k = None \<Longrightarrow> AList.map_entry k f al = al"
  by (induction al) (auto split: if_splits)

text \<open>
  Claim C1, amended. When the handler output of a key completes, at an event or at the
  completion pushed into its flow or on its own, after delivering the values \<open>vs\<close>, the
  entry of the key is removed from the table, and the merged output, if still live, receives
  \<open>vs\<close> and is completed exactly when the removal leaves the table empty. Whether the
  input has completed is not consulted.
\<close>

theorem flow_completion:
  "map_of (flows st) key = Some fl \<and> subscribed fl \<and> \<not> stopped (merged st) \<and>
   react (chain fl) (chain_state fl) p = (map OnNext vs @ OnCompleted # ns, s') \<longrightarrow>
   flows (push_flow key p st) = AList.delete key (flows st) \<and>
   merged (push_flow key p st) =
     \<lparr>emitted = emitted (merged st) @ map OnNext vs @
                 (if AList.delete key (flows st) = [] then [OnCompleted] else []),
      stopped = (AList.delete key (flows st) = [])\<rparr>"
proof (intro impI, elim conjE)
  assume fl: "map_of (flows st) key = Some fl" and sub: "subscribed fl"
    and live: "\<not> stopped (merged st)"
    and re: "react (chain fl) (chain_state fl) p = (map OnNext vs @ OnCompleted # ns, s')"
  let ?st1 = "st\<lparr>flows := AList.update key (fl\<lparr>chain_state := s'\<rparr>) (flows st)\<rparr>"
  let ?rest = "AList.delete key (flows st)"
  let ?m = "\<lparr>emitted = emitted (merged st) @ map OnNext vs, stopped = False\<rparr>"
  have del: "AList.delete key (AList.update key (fl\<lparr>chain_state := s'\<rparr>) (flows st)) = ?rest"
    by (simp add: delete_update_same)
  have "deliver key (map OnNext vs @ OnCompleted # ns) ?st1 =
      (?st1\<lparr>flows := ?rest,
             merged := (if ?rest = [] then observer_onCompleted ?m else ?m)\<rparr>, False)"
    using live by (simp add: deliver_values del length_Object_keys)
  moreover have "AList.map_entry key (\<lambda>f. f\<lparr>subscribed := False\<rparr>) ?rest = ?rest"
    by (rule map_entry_absent) (simp add: delete_conv)
  ultimately have pf: "push_flow key p st =
      ?st1\<lparr>flows := ?rest, merged := (if ?rest = [] then observer_onCompleted ?m else ?m)\<rparr>"
    using fl sub re by (simp add: push_flow_def Let_def)
  then show "flows (push_flow key p st) = ?rest \<and>
   merged (push_flow key p st) =
     \<lparr>emitted = emitted (merged st) @ map OnNext vs @
                 (if ?rest = [] then [OnCompleted] else []),
      stopped = (?rest = [])\<rparr>"
    by (simp add: observer_onCompleted_def)
qed

theorem flow_completion_witness:
  "flows (push_flow ''B'' (Push (''B'', 7)) state_two_flows) =
     [(''A'', \<lparr>chain = until_timer_output, chain_state = False, subscribed = True\<rparr>)] \<and>
   merged (push_flow ''B'' (Push (''B'', 7)) state_two_flows) =
     \<lparr>emitted = [OnNext (''A'', 1), OnNext (''B'', 7)], stopped = False\<rparr> \<and>
   flows (push_flow ''A'' Wake state_two_flows) =
     [(''B'', \<lparr>chain = take1_output, chain_state = False, subscribed = True\<rparr>)] \<and>
   merged (push_flow ''A'' Wake state_two_flows) =
     \<lparr>emitted = [OnNext (''A'', 1)], stopped = False\<rparr> \<and>
   flows (push_flow ''A'' (Push (''A'', 1)) state_one_flow) = [] \<and>
   merged (push_flow ''A'' (Push (''A'', 1)) state_one_flow) =
     \<lparr>emitted = [OnNext (''A'', 1), OnCompleted], stopped = True\<rparr> \<and>
   flows (push_flow ''A'' Finish state_after_A1) = [] \<and>
   merged (push_flow ''A'' Finish state_after_A1) =
     \<lparr>emitted = [OnNext (''A'', 1), OnCompleted], stopped = True\<rparr>"
  using
    flow_completion [where st = state_two_flows and key = "''B''" and p = "Push (''B'', 7)"
      and fl = "\<lparr>chain = take1_output, chain_state = False, subscribed = True\<rparr>"
      and vs = "[(''B'', 7)]" and ns = "[]" and s' = True]
    flow_completion [where st = state_two_flows and key = "''A''" and p = Wake
      and fl = "\<lparr>chain = until_timer_output, chain_state = False, subscribed = True\<rparr>"
      and vs = "[]" and ns = "[]" and s' = True]
    flow_completion [where st = state_one_flow and key = "''A''" and p = "Push (''A'', 1)"
      and fl = "\<lparr>chain = take1_output, chain_state = False, subscribed = True\<rparr>"
      and vs = "[(''A'', 1)]" and ns = "[]" and s' = True]
    flow_completion [where st = state_after_A1 and key = "''A''" and p = Finish
      and fl = "\<lparr>chain = identity_output, chain_state = False, subscribed = True\<rparr>"
      and vs = "[]" and ns = "[]" and s' = False]
  by (simp add: state_two_flows_def state_one_flow_def state_after_A1_def
      take1_output_def until_timer_output_def identity_output_def)









end
